theory Spec2Isabelle
  imports Complex_Main
begin

section \<open>The shared store\<close>

text \<open>
  The lock talks to a key-value store through the handle \<^verbatim>\<open>self.r\<close>. The store
  holds byte strings under string keys; a key that is not there reads as \<open>None\<close>.
\<close>

type_synonym store = "string \<rightharpoonup> string"

text \<open>
  The store client behind \<^verbatim>\<open>self.r\<close> (the \<^verbatim>\<open>connection\<close> argument of
  the constructor) is not part of the sources. The operations that
  \<^verbatim>\<open>redis_lock.py\<close> calls on it are taken from the table of the external
  interfaces.
\<close>

text \<open>Modelled from the spec: \<^verbatim>\<open>setIfAbsent\<close> creates the key only if it is
  absent, and returns whether it did.\<close>

definition setnx :: "string \<Rightarrow> string \<Rightarrow> store \<Rightarrow> bool \<times> store" where
  "setnx k v s = (if s k = None then (True, s(k \<mapsto> v)) else (False, s))"

text \<open>Modelled from the spec: \<^verbatim>\<open>get\<close> returns the current value or its
  absence.\<close>

definition get :: "string \<Rightarrow> store \<Rightarrow> string option" where
  "get k s = s k"

text \<open>Modelled from the spec: \<^verbatim>\<open>setAndReturnOld\<close> replaces the value and
  returns what was there before.\<close>

definition getset :: "string \<Rightarrow> string \<Rightarrow> store \<Rightarrow> string option \<times> store" where
  "getset k v s = (s k, s(k \<mapsto> v))"

text \<open>Modelled from the spec: \<^verbatim>\<open>delete\<close> removes the key unconditionally.\<close>

definition delete :: "string \<Rightarrow> store \<Rightarrow> store" where
  "delete k s = s(k := None)"

text \<open>
  Numbers are Python numbers read as exact reals: the clock, the three durations of the
  lock and the timestamps computed from them. That is exact for integer arguments such
  as the defaults; the rounding of float arithmetic, and the values \<^verbatim>\<open>inf\<close>
  and \<^verbatim>\<open>nan\<close>, are left out. Two conversions sit between a number and the byte
  string in the store, and neither is in the sources, so both are parameters of the
  model: \<open>to_bytes\<close> is what the client writes for a float argument, and
  \<open>py_float\<close> is Python's \<^verbatim>\<open>float()\<close> on a stored string, \<open>None\<close> where
  it raises \<^verbatim>\<open>ValueError\<close>.
\<close>

record codec =
  to_bytes :: "real \<Rightarrow> string"
  py_float :: "string \<Rightarrow> real option"

section \<open>Lock\<close>

text \<open>
  \<^verbatim>\<open>Lock.__init__\<close> stores its arguments; the connection is the store that
  every operation below takes and returns.
\<close>

record lock =
  key :: string
  timeout :: real
  expires :: real
  check_interval :: real

text \<open>
  What \<^verbatim>\<open>acquire\<close> can raise: \<^verbatim>\<open>LockTimeout\<close> from its last line,
  \<^verbatim>\<open>ValueError\<close> from \<^verbatim>\<open>float(current_value)\<close>, and the error of
  \<^verbatim>\<open>time.sleep\<close> on a negative argument (\<^verbatim>\<open>ValueError\<close> in Python 3,
  \<^verbatim>\<open>IOError\<close> in Python 2), kept apart here as \<open>SleepError\<close>.
\<close>

datatype error = LockTimeout | ValueError | SleepError

text \<open>
  The calls one run of \<^verbatim>\<open>acquire\<close> makes, in order, each with what it
  returned: \<open>Setnx ok\<close>, \<open>Get value\<close>, \<open>Getset old\<close>, and \<open>Sleep d\<close> for
  \<^verbatim>\<open>time.sleep(d)\<close>.
\<close>

datatype call = Setnx bool | Get "string option" | Getset "string option" | Sleep real

text \<open>
  The other processes and the clock. One \<open>round\<close> is what surrounds one pass through
  the loop body: the two readings of \<^verbatim>\<open>time.time()\<close> (lines 33 and 42), and
  what the other parties do to the store before this caller's \<^verbatim>\<open>setnx\<close>
  (which includes the time it slept), between its \<^verbatim>\<open>setnx\<close> and its
  \<^verbatim>\<open>get\<close>, and between its \<^verbatim>\<open>get\<close> and its \<^verbatim>\<open>getset\<close>.
\<close>

record round =
  now1 :: real
  env1 :: "store \<Rightarrow> store"
  env2 :: "store \<Rightarrow> store"
  now2 :: real
  env3 :: "store \<Rightarrow> store"

datatype status = Return | Raise error | Continue

text \<open>
  One pass through the body of the \<^verbatim>\<open>while\<close> loop, lines 33 to 44: the
  status says whether the pass returned, raised, or fell through to the two lines that
  decrement the budget and sleep. \<^verbatim>\<open>current_value and ...\<close> is false for an
  absent key and for the empty string; \<^verbatim>\<open>float\<close> is evaluated before the
  clock is read, and \<^verbatim>\<open>getset\<close> only when the value read is in the past.
\<close>

definition attempt :: "codec \<Rightarrow> lock \<Rightarrow> round \<Rightarrow> store \<Rightarrow> status \<times> store \<times> call list" where
  "attempt c l r s =
     (let expires' = now1 r + expires l + 1;
          (ok, s1) = setnx (key l) (to_bytes c expires') (env1 r s)
      in if ok then (Return, s1, [Setnx True])
         else
           let s2 = env2 r s1;
               current_value = get (key l) s2
           in (case current_value of
                 None \<Rightarrow> (Continue, s2, [Setnx False, Get None])
               | Some v \<Rightarrow>
                   if v = [] then (Continue, s2, [Setnx False, Get (Some v)])
                   else (case py_float c v of
                           None \<Rightarrow> (Raise ValueError, s2, [Setnx False, Get (Some v)])
                         | Some t \<Rightarrow>
                             if t < now2 r then
                               (let (old, s3) = getset (key l) (to_bytes c expires') (env3 r s2)
                                in (if old = Some v then Return else Continue, s3,
                                    [Setnx False, Get (Some v), Getset old]))
                             else (Continue, s2, [Setnx False, Get (Some v)]))))"

datatype outcome = Acquired | Raised error

text \<open>
  A run of \<^verbatim>\<open>acquire\<close>: how it ended (\<open>None\<close>: it was still in the loop when
  the rounds given to it were used up), the store it left, and its calls.
\<close>

record run =
  outcome :: "outcome option"
  final :: store
  calls :: "call list"

text \<open>
  The loop of \<^verbatim>\<open>acquire\<close>, lines 32 to 49, with the remaining budget
  \<^verbatim>\<open>timeout\<close> as an argument. Each pass takes one round. The loop has no
  bound of its own (with \<^verbatim>\<open>check_interval = 0\<close> the budget never shrinks), so
  a run over finitely many rounds may end with the caller still polling. The budget is
  decremented without rounding, as line 46 does for integers; with fractional floats
  line 46 rounds, and the number of passes is then stated for integers only.
\<close>

fun acquire_loop :: "codec \<Rightarrow> lock \<Rightarrow> real \<Rightarrow> round list \<Rightarrow> store \<Rightarrow> run" where
  "acquire_loop c l budget [] s =
     (if budget \<ge> 0 then \<lparr>outcome = None, final = s, calls = []\<rparr>
      else \<lparr>outcome = Some (Raised LockTimeout), final = s, calls = []\<rparr>)"
| "acquire_loop c l budget (r # rs) s =
     (if budget \<ge> 0 then
        (case attempt c l r s of
           (Return, s', cs) \<Rightarrow> \<lparr>outcome = Some Acquired, final = s', calls = cs\<rparr>
         | (Raise e, s', cs) \<Rightarrow> \<lparr>outcome = Some (Raised e), final = s', calls = cs\<rparr>
         | (Continue, s', cs) \<Rightarrow>
             if check_interval l < 0
             then \<lparr>outcome = Some (Raised SleepError), final = s', calls = cs\<rparr>
             else (let rest = acquire_loop c l (budget - check_interval l) rs s'
                   in rest\<lparr>calls := cs @ Sleep (check_interval l) # calls rest\<rparr>))
      else \<lparr>outcome = Some (Raised LockTimeout), final = s, calls = []\<rparr>)"

definition acquire :: "codec \<Rightarrow> lock \<Rightarrow> round list \<Rightarrow> store \<Rightarrow> run" where
  "acquire c l rs s = acquire_loop c l (timeout l) rs s"

text \<open>\<^verbatim>\<open>release\<close> deletes the key, whoever holds it.\<close>

definition release :: "lock \<Rightarrow> store \<Rightarrow> store" where
  "release l s = delete (key l) s"

section \<open>The lock as a context manager\<close>

text \<open>
  \<^verbatim>\<open>__enter__\<close> returns \<^verbatim>\<open>self.acquire()\<close>. \<^verbatim>\<open>__exit__\<close>
  releases first and then returns \<^verbatim>\<open>True\<close> when it was given no exception
  type and \<^verbatim>\<open>False\<close> when it was given one.
\<close>

definition lock_enter :: "codec \<Rightarrow> lock \<Rightarrow> round list \<Rightarrow> store \<Rightarrow> run" where
  "lock_enter c l rs s = acquire c l rs s"

definition lock_exit :: "lock \<Rightarrow> 'e option \<Rightarrow> store \<Rightarrow> bool \<times> store" where
  "lock_exit l exc_type s =
     (let s' = release l s in if exc_type = None then (True, s') else (False, s'))"

text \<open>
  How a \<^verbatim>\<open>with\<close> block over the lock ends: normally with the value of the
  body, with the body's exception passed on, with the body's exception swallowed
  (\<^verbatim>\<open>__exit__\<close> returned true), with the error of \<^verbatim>\<open>__enter__\<close> (the body
  and \<^verbatim>\<open>__exit__\<close> are then not run), or not yet, \<^verbatim>\<open>__enter__\<close> still
  polling.
\<close>

datatype ('e, 'a) scope = Normal 'a | Propagated 'e | Swallowed | NotEntered error | Polling

text \<open>
  Python's \<^verbatim>\<open>with Lock(...): body\<close>. The body is any function of the store that
  returns a value or raises, and leaves a store behind.
\<close>

definition with_lock ::
  "codec \<Rightarrow> lock \<Rightarrow> round list \<Rightarrow> (store \<Rightarrow> ('e + 'a) \<times> store) \<Rightarrow> store \<Rightarrow> ('e, 'a) scope \<times> store"
where
  "with_lock c l rs body s =
     (let x = lock_enter c l rs s in
      case outcome x of
        None \<Rightarrow> (Polling, final x)
      | Some (Raised e) \<Rightarrow> (NotEntered e, final x)
      | Some Acquired \<Rightarrow>
          (case body (final x) of
             (Inl exc, s1) \<Rightarrow>
               (let (suppress, s2) = lock_exit l (Some exc) s1
                in (if suppress then Swallowed else Propagated exc, s2))
           | (Inr v, s1) \<Rightarrow>
               (let (suppress, s2) = lock_exit l (None :: 'e option) s1
                in (Normal v, s2))))"

section \<open>Runs against a held lock\<close>

text \<open>
  A value is an unexpired claim at time \<open>now\<close> when it is there, \<^verbatim>\<open>float\<close> reads
  it, and the timestamp read is not before \<open>now\<close>.
\<close>

definition unexpired :: "codec \<Rightarrow> real \<Rightarrow> string option \<Rightarrow> bool" where
  "unexpired c now val =
     (case val of
        None \<Rightarrow> False
      | Some v \<Rightarrow> (case py_float c v of None \<Rightarrow> False | Some t \<Rightarrow> now \<le> t))"

text \<open>
  The key holds an unexpired claim at both checks of a pass: when this caller's
  \<^verbatim>\<open>setnx\<close> arrives and when it reads the key and the clock.
\<close>

definition held :: "codec \<Rightarrow> lock \<Rightarrow> round \<Rightarrow> store \<Rightarrow> bool" where
  "held c l r s =
     (unexpired c (now1 r) (get (key l) (env1 r s))
      \<and> unexpired c (now2 r) (get (key l) (env2 r (env1 r s))))"

text \<open>
  It does so at every check of a run: a caller that finds the lock held leaves the
  store as the others made it, and the next pass starts from there.
\<close>

fun held_throughout :: "codec \<Rightarrow> lock \<Rightarrow> round list \<Rightarrow> store \<Rightarrow> bool" where
  "held_throughout c l [] s = True"
| "held_throughout c l (r # rs) s =
     (held c l r s \<and> held_throughout c l rs (env2 r (env1 r s)))"

fun waiting :: "call \<Rightarrow> bool" where
  "waiting (Setnx ok) = (\<not> ok)"
| "waiting (Get v) = True"
| "waiting (Getset old) = False"
| "waiting (Sleep d) = True"

fun is_setnx :: "call \<Rightarrow> bool" where
  "is_setnx (Setnx ok) = True"
| "is_setnx (Get v) = False"
| "is_setnx (Getset old) = False"
| "is_setnx (Sleep d) = False"

text \<open>Every pass starts with one \<^verbatim>\<open>setnx\<close>, so the passes of a run are its
  \<^verbatim>\<open>setnx\<close> calls.\<close>

definition polls :: "run \<Rightarrow> nat" where
  "polls x = length (filter is_setnx (calls x))"

fun is_sleep :: "call \<Rightarrow> bool" where
  "is_sleep (Setnx ok) = False"
| "is_sleep (Get v) = False"
| "is_sleep (Getset old) = False"
| "is_sleep (Sleep d) = True"

text \<open>The rhythm of a run: its \<^verbatim>\<open>setnx\<close> calls and its sleeps, in the order
  in which it made them.\<close>

definition rhythm :: "run \<Rightarrow> call list" where
  "rhythm x = filter (\<lambda>e. is_setnx e \<or> is_sleep e) (calls x)"

text \<open>A failed \<^verbatim>\<open>setnx\<close> at once, then \<open>n\<close> times a sleep of \<open>d\<close> and
  the next failed \<^verbatim>\<open>setnx\<close>.\<close>

fun alternation :: "nat \<Rightarrow> real \<Rightarrow> call list" where
  "alternation 0 d = [Setnx False]"
| "alternation (Suc n) d = Setnx False # Sleep d # alternation n d"

section \<open>RateLimitGuard\<close>

text \<open>
  The class \<^verbatim>\<open>RateLimit\<close> of the package is not among the sources; its tests
  are. Everything in this section except the two functions of the tests is written
  from the component design of the specification.
\<close>

text \<open>Modelled from the spec: the three errors of a scope entry of
  \<^verbatim>\<open>RateLimit\<close>, which is missing from the sources.\<close>

datatype rl_error = GaveUp | TooManyRequests | QuotaTimeout

text \<open>Modelled from the spec: a counter key of the store (\<^verbatim>\<open>RateLimit\<close> and
  its store calls are missing from the sources). A key that is there has a count and,
  once \<^verbatim>\<open>expire\<close> was called on it, a time to live.\<close>

record counter =
  hits :: nat
  ttl :: "real option"

type_synonym cstore = "string \<times> string \<rightharpoonup> counter"

text \<open>Modelled from the spec: \<^verbatim>\<open>increment\<close> of the store interface, missing
  from the sources. It creates an absent key at 1 and returns the new value.\<close>

definition increment :: "string \<times> string \<Rightarrow> cstore \<Rightarrow> nat \<times> cstore" where
  "increment k s =
     (case s k of
        None \<Rightarrow> (1, s(k \<mapsto> \<lparr>hits = 1, ttl = None\<rparr>))
      | Some x \<Rightarrow> (hits x + 1, s(k \<mapsto> x\<lparr>hits := hits x + 1\<rparr>)))"

text \<open>Modelled from the spec: \<^verbatim>\<open>expire\<close> of the store interface, missing from
  the sources. It sets the time to live of an existing key.\<close>

definition expire_key :: "string \<times> string \<Rightarrow> real \<Rightarrow> cstore \<Rightarrow> cstore" where
  "expire_key k d s =
     (case s k of None \<Rightarrow> s | Some x \<Rightarrow> s(k \<mapsto> x\<lparr>ttl := Some d\<rparr>))"

text \<open>Modelled from the spec: the fields of \<^verbatim>\<open>RateLimit\<close>, which is missing
  from the sources, as the data model lists them. The callables of
  \<open>post_enter_callbacks\<close> are kept by name; what a callable does when it is run is
  not part of the guard.\<close>

record guard =
  resource :: string
  client :: string
  max_requests :: nat
  expire :: real
  blocking :: bool
  acquire_timeout :: real
  acquire_check_interval :: real
  acquire_attempt :: nat
  post_enter_callbacks :: "string set"
  in_context :: bool

text \<open>Modelled from the spec: \<^verbatim>\<open>RateLimit.get_usage\<close>, missing from the
  sources. The usage is the count of the key of \<open>(resource, client)\<close> in the active
  window, 0 when the key is absent.\<close>

definition get_usage :: "guard \<Rightarrow> cstore \<Rightarrow> nat" where
  "get_usage g s = (case s (resource g, client g) of None \<Rightarrow> 0 | Some x \<Rightarrow> hits x)"

text \<open>Modelled from the spec: the state \<^bold>\<open>Check\<close> of a scope entry of
  \<^verbatim>\<open>RateLimit\<close>, missing from the sources. Below the ceiling the counter is
  incremented (the first increment of a window also sets its expiry), the guard is
  marked as inside its scope, the attempt count is reset and the callbacks are run and
  cleared. At the ceiling a guard that does not block fails with
  \<^verbatim>\<open>TooManyRequests\<close>; one that blocks fails with \<^verbatim>\<open>QuotaTimeout\<close> once
  \<open>acquire_attempt * acquire_check_interval\<close> has reached \<open>acquire_timeout\<close>, and
  otherwise counts the attempt, sleeps and checks again. Each element of \<open>ws\<close> is
  what happens to the store during one such sleep (the window expiring, other clients);
  \<open>None\<close> is a guard still waiting when they are used up.\<close>

fun check :: "guard \<Rightarrow> (cstore \<Rightarrow> cstore) list \<Rightarrow> cstore \<Rightarrow> (rl_error + unit) option \<times> guard \<times> cstore" where
  "check g ws s =
     (if get_usage g s < max_requests g then
        (let (n, s1) = increment (resource g, client g) s;
             s2 = (if n = 1 then expire_key (resource g, client g) (expire g) s1 else s1)
         in (Some (Inr ()),
             g\<lparr>in_context := True, acquire_attempt := 0, post_enter_callbacks := {}\<rparr>, s2))
      else if \<not> blocking g then (Some (Inl TooManyRequests), g, s)
      else if acquire_timeout g \<le> real (acquire_attempt g) * acquire_check_interval g
      then (Some (Inl QuotaTimeout), g, s)
      else (case ws of
              [] \<Rightarrow> (None, g, s)
            | w # ws' \<Rightarrow> check (g\<lparr>acquire_attempt := acquire_attempt g + 1\<rparr>) ws' (w s)))"

declare check.simps [simp del]

text \<open>Modelled from the spec: the state \<^bold>\<open>Start\<close> of a scope entry of
  \<^verbatim>\<open>RateLimit\<close>, missing from the sources. A guard already inside its scope
  fails with \<^verbatim>\<open>GaveUp\<close> before anything else.\<close>

definition enter :: "guard \<Rightarrow> (cstore \<Rightarrow> cstore) list \<Rightarrow> cstore \<Rightarrow> (rl_error + unit) option \<times> guard \<times> cstore" where
  "enter g ws s = (if in_context g then (Some (Inl GaveUp), g, s) else check g ws s)"

text \<open>Modelled from the spec: the \<^bold>\<open>Exit\<close> of a scope of \<^verbatim>\<open>RateLimit\<close>,
  missing from the sources. It clears \<open>in_context\<close> and leaves the counter alone.\<close>

definition leave :: "guard \<Rightarrow> guard" where
  "leave g = g\<lparr>in_context := False\<rparr>"

text \<open>
  From the tests: \<^verbatim>\<open>with self.rate_limit: pass\<close> enters and, when that
  succeeded, leaves at once.
\<close>

definition with_pass :: "guard \<Rightarrow> cstore \<Rightarrow> (rl_error + unit) option \<times> guard \<times> cstore" where
  "with_pass g s =
     (case enter g [] s of
        (Some (Inr u), g', s') \<Rightarrow> (Some (Inr u), leave g', s')
      | failed \<Rightarrow> failed)"

text \<open>
  From the tests: \<^verbatim>\<open>_make_10_requests\<close> runs that block ten times in a row, here
  \<open>n\<close> times; an entry that raises ends it. Nothing else touches the store in between:
  the entries are within one window.
\<close>

fun make_requests :: "nat \<Rightarrow> guard \<Rightarrow> cstore \<Rightarrow> (rl_error + unit) option \<times> guard \<times> cstore" where
  "make_requests 0 g s = (Some (Inr ()), g, s)"
| "make_requests (Suc n) g s =
     (case with_pass g s of
        (Some (Inr u), g', s') \<Rightarrow> make_requests n g' s'
      | failed \<Rightarrow> failed)"

section \<open>Concrete inputs\<close>

subsection \<open>A client that writes whole seconds\<close>

text \<open>
  To run the model on concrete inputs the two conversions need values. This client
  writes a timestamp as its whole seconds in decimal followed by \<^verbatim>\<open>.0\<close>, and
  reads back exactly the strings of that shape, as \<^verbatim>\<open>repr\<close> and
  \<^verbatim>\<open>float\<close> do for whole non-negative floats.
\<close>

definition digit :: "nat \<Rightarrow> char" where
  "digit n = ''0123456789'' ! n"

fun decimal :: "nat \<Rightarrow> string" where
  "decimal n = (if n < 10 then [digit n] else decimal (n div 10) @ [digit (n mod 10)])"

definition digit_of :: "char \<Rightarrow> nat option" where
  "digit_of ch = (if ch \<in> set ''0123456789'' then Some (of_char ch - 48) else None)"

fun number_of :: "nat \<Rightarrow> string \<Rightarrow> nat option" where
  "number_of n [] = Some n"
| "number_of n (ch # v) =
     (case digit_of ch of None \<Rightarrow> None | Some d \<Rightarrow> number_of (10 * n + d) v)"

definition whole_to_bytes :: "real \<Rightarrow> string" where
  "whole_to_bytes t = decimal (nat \<lfloor>t\<rfloor>) @ ''.0''"

definition whole_float :: "string \<Rightarrow> real option" where
  "whole_float v =
     (if length v \<ge> 3 \<and> drop (length v - 2) v = ''.0''
      then map_option real (number_of 0 (take (length v - 2) v)) else None)"

definition whole :: codec where
  "whole = \<lparr>to_bytes = whole_to_bytes, py_float = whole_float\<rparr>"

text \<open>
  The lock of the defaults, \<^verbatim>\<open>Lock(connection, 'my_lock')\<close>, and a round in
  which nobody else touches the store and both clock readings are \<open>t\<close>.
\<close>

definition my_lock :: lock where
  "my_lock = \<lparr>key = ''my_lock'', timeout = 10, expires = 60, check_interval = 1\<rparr>"

definition quiet :: "real \<Rightarrow> round" where
  "quiet t = \<lparr>now1 = t, env1 = (\<lambda>s. s), env2 = (\<lambda>s. s), now2 = t, env3 = (\<lambda>s. s)\<rparr>"

text \<open>
  The race of the witness: the key holds the stale \<^verbatim>\<open>100.0\<close> when this caller
  reads it at time 200; before its \<^verbatim>\<open>getset\<close> another party takes the lock
  over with \<^verbatim>\<open>262.0\<close>.
\<close>

definition raced :: round where
  "raced = \<lparr>now1 = 200, env1 = (\<lambda>s. s), env2 = (\<lambda>s. s), now2 = 200,
            env3 = (\<lambda>s. s(''my_lock'' \<mapsto> ''262.0''))\<rparr>"

text \<open>
  The scenario of the specification: the default lock (\<^verbatim>\<open>timeout = 10\<close>,
  \<^verbatim>\<open>check_interval = 1\<close>), the key held by a claim that expires at 160 and is
  never released, and this caller's passes one second apart from time 100 on.
\<close>

definition held_elsewhere :: store where
  "held_elsewhere = [''my_lock'' \<mapsto> ''160.0'']"

definition seconds :: "round list" where
  "seconds = map quiet [100, 101, 102, 103, 104, 105, 106, 107, 108, 109, 110, 111]"

text \<open>
  The guard of the tests' \<^verbatim>\<open>setUp\<close>:
  \<^verbatim>\<open>RateLimit(resource='test', client='localhost', blocking=False, max_requests=10)\<close>.
  The arguments it leaves to the defaults are given values here.
\<close>

definition test_guard :: guard where
  "test_guard =
     \<lparr>resource = ''test'', client = ''localhost'', max_requests = 10, expire = 1,
      blocking = False, acquire_timeout = 5, acquire_check_interval = 1,
      acquire_attempt = 0, post_enter_callbacks = {}, in_context = False\<rparr>"

section \<open>Single passes of the loop\<close>

lemma attempt_absent:
  assumes "env1 r s (key l) = None"
  shows "attempt c l r s =
    (Return, (env1 r s)(key l \<mapsto> to_bytes c (now1 r + expires l + 1)), [Setnx True])"
  using assms by (simp add: attempt_def setnx_def)

lemma attempt_present:
  assumes "env1 r s (key l) \<noteq> None"
  shows "attempt c l r s =
    (let s2 = env2 r (env1 r s) in
     case s2 (key l) of
       None \<Rightarrow> (Continue, s2, [Setnx False, Get None])
     | Some v \<Rightarrow>
         if v = [] then (Continue, s2, [Setnx False, Get (Some v)])
         else (case py_float c v of
                 None \<Rightarrow> (Raise ValueError, s2, [Setnx False, Get (Some v)])
               | Some t \<Rightarrow>
                   if t < now2 r then
                     (if env3 r s2 (key l) = Some v then Return else Continue,
                      (env3 r s2)(key l \<mapsto> to_bytes c (now1 r + expires l + 1)),
                      [Setnx False, Get (Some v), Getset (env3 r s2 (key l))])
                   else (Continue, s2, [Setnx False, Get (Some v)])))"
  using assms by (auto simp add: attempt_def setnx_def get_def getset_def Let_def split: option.splits)

text \<open>
  C6. A pass made while the key is absent: \<^verbatim>\<open>setnx\<close> succeeds, \<^verbatim>\<open>acquire\<close>
  returns on that pass with \<^verbatim>\<open>setnx\<close> as its only call, and the key holds the
  timestamp \<open>now + expires + 1\<close> of that pass. The pass is any pass of the loop: the
  budget and the store are those the loop has reached, and \<open>0 \<le> budget\<close> says that
  the loop condition let the pass start.
\<close>

theorem acquire_absent_key:
  assumes "0 \<le> budget"
    and "get (key l) (env1 r s) = None"
  shows "fst (setnx (key l) (to_bytes c (now1 r + expires l + 1)) (env1 r s))
    \<and> acquire_loop c l budget (r # rs) s =
        \<lparr>outcome = Some Acquired,
         final = (env1 r s)(key l \<mapsto> to_bytes c (now1 r + expires l + 1)),
         calls = [Setnx True]\<rparr>
    \<and> get (key l) (final (acquire_loop c l budget (r # rs) s)) =
        Some (to_bytes c (now1 r + expires l + 1))"
  using assms by (simp add: attempt_absent get_def setnx_def)

theorem acquire_absent_key_witness:
  "(0::real) \<le> 10
   \<and> get (key my_lock) (env1 (quiet 100) Map.empty) = None
   \<and> outcome (acquire_loop whole my_lock 10 [quiet 100] Map.empty) = Some Acquired
   \<and> get (key my_lock) (final (acquire_loop whole my_lock 10 [quiet 100] Map.empty)) = Some ''161.0''"
  using acquire_absent_key [of 10 my_lock "quiet 100" Map.empty whole "[]"]
  by (simp add: my_lock_def quiet_def get_def whole_def whole_to_bytes_def digit_def)

text \<open>
  C2. Crash recovery on one pass: \<^verbatim>\<open>setnx\<close> fails, the value read is a
  non-empty string whose float is strictly before the clock, and \<^verbatim>\<open>getset\<close>
  returns that same string. Then \<^verbatim>\<open>acquire\<close> returns on that pass, after
  these three calls and no sleep, and the key holds this caller's timestamp. Nobody
  called \<^verbatim>\<open>release\<close>: the key was present at all three calls.
\<close>

theorem acquire_stale_takeover:
  assumes "0 \<le> budget"
    and "cand = to_bytes c (now1 r + expires l + 1)"
    and "s1 = env1 r s" and "s2 = env2 r s1" and "s3 = env3 r s2"
    and "\<not> fst (setnx (key l) cand s1)"
    and "get (key l) s2 = Some v" and "v \<noteq> []"
    and "py_float c v = Some t" and "t < now2 r"
    and "fst (getset (key l) cand s3) = Some v"
  shows "acquire_loop c l budget (r # rs) s =
        \<lparr>outcome = Some Acquired, final = s3(key l \<mapsto> cand),
         calls = [Setnx False, Get (Some v), Getset (Some v)]\<rparr>
    \<and> get (key l) (final (acquire_loop c l budget (r # rs) s)) = Some cand"
proof -
  from assms(3,6) have present: "env1 r s (key l) \<noteq> None"
    by (auto simp add: setnx_def split: if_splits)
  from assms(3,4,7) have read: "env2 r (env1 r s) (key l) = Some v"
    by (simp add: get_def)
  from assms(3,4,5,11) have old: "env3 r (env2 r (env1 r s)) (key l) = Some v"
    by (simp add: getset_def)
  have "attempt c l r s = (Return, s3(key l \<mapsto> cand), [Setnx False, Get (Some v), Getset (Some v)])"
    using read old assms(2,3,4,5,8,9,10) by (simp add: attempt_present [OF present])
  with assms(1) show ?thesis by (simp add: get_def)
qed

theorem acquire_stale_takeover_witness:
  "(0::real) \<le> 10
   \<and> \<not> fst (setnx ''my_lock'' ''261.0'' [''my_lock'' \<mapsto> ''100.0''])
   \<and> get ''my_lock'' [''my_lock'' \<mapsto> ''100.0''] = Some ''100.0''
   \<and> py_float whole ''100.0'' = Some 100 \<and> (100::real) < now2 (quiet 200)
   \<and> fst (getset ''my_lock'' ''261.0'' [''my_lock'' \<mapsto> ''100.0'']) = Some ''100.0''
   \<and> acquire_loop whole my_lock 10 [quiet 200] [''my_lock'' \<mapsto> ''100.0''] =
        \<lparr>outcome = Some Acquired, final = [''my_lock'' \<mapsto> ''261.0''],
         calls = [Setnx False, Get (Some ''100.0''), Getset (Some ''100.0'')]\<rparr>"
  using acquire_stale_takeover [where budget = 10 and cand = "''261.0''" and c = whole
      and r = "quiet 200" and l = my_lock and s = "[''my_lock'' \<mapsto> ''100.0'']"
      and ?s1.0 = "[''my_lock'' \<mapsto> ''100.0'']" and ?s2.0 = "[''my_lock'' \<mapsto> ''100.0'']"
      and ?s3.0 = "[''my_lock'' \<mapsto> ''100.0'']" and v = "''100.0''" and t = 100 and rs = "[]"]
  by (simp add: my_lock_def quiet_def setnx_def get_def getset_def whole_def
      whole_to_bytes_def whole_float_def digit_def digit_of_def)

text \<open>
  C9. A lost takeover still writes. On a pass where the value read is in the past but
  \<^verbatim>\<open>getset\<close> returns something else (another party wrote or deleted the key
  between this caller's \<^verbatim>\<open>get\<close> and its \<^verbatim>\<open>getset\<close>), the pass does
  not return, and the key nevertheless holds this caller's timestamp afterwards: the
  value of the party that won the race is gone.
\<close>

theorem acquire_lost_takeover_overwrites:
  assumes "0 \<le> budget"
    and "cand = to_bytes c (now1 r + expires l + 1)"
    and "s1 = env1 r s" and "s2 = env2 r s1" and "s3 = env3 r s2"
    and "\<not> fst (setnx (key l) cand s1)"
    and "get (key l) s2 = Some v" and "v \<noteq> []"
    and "py_float c v = Some t" and "t < now2 r"
    and "fst (getset (key l) cand s3) \<noteq> Some v"
  shows "attempt c l r s =
        (Continue, s3(key l \<mapsto> cand), [Setnx False, Get (Some v), Getset (get (key l) s3)])
    \<and> outcome (acquire_loop c l budget [r] s) \<noteq> Some Acquired
    \<and> get (key l) (final (acquire_loop c l budget [r] s)) = Some cand"
proof -
  from assms(3,6) have present: "env1 r s (key l) \<noteq> None"
    by (auto simp add: setnx_def split: if_splits)
  from assms(3,4,7) have read: "env2 r (env1 r s) (key l) = Some v"
    by (simp add: get_def)
  from assms(3,4,5,11) have old: "env3 r (env2 r (env1 r s)) (key l) \<noteq> Some v"
    by (simp add: getset_def)
  have pass: "attempt c l r s =
      (Continue, s3(key l \<mapsto> cand), [Setnx False, Get (Some v), Getset (get (key l) s3)])"
    using read old assms(2,3,4,5,8,9,10)
    by (simp add: attempt_present [OF present] get_def Let_def)
  from pass assms(1) have "outcome (acquire_loop c l budget [r] s) \<noteq> Some Acquired"
    by simp
  moreover from pass assms(1)
  have "get (key l) (final (acquire_loop c l budget [r] s)) = Some cand"
    by (simp add: get_def)
  ultimately show ?thesis using pass by simp
qed

theorem acquire_lost_takeover_overwrites_witness:
  "(0::real) \<le> 10
   \<and> \<not> fst (setnx ''my_lock'' ''261.0'' [''my_lock'' \<mapsto> ''100.0''])
   \<and> get ''my_lock'' [''my_lock'' \<mapsto> ''100.0''] = Some ''100.0''
   \<and> py_float whole ''100.0'' = Some 100 \<and> (100::real) < now2 raced
   \<and> fst (getset ''my_lock'' ''261.0'' [''my_lock'' \<mapsto> ''262.0'']) \<noteq> Some ''100.0''
   \<and> outcome (acquire_loop whole my_lock 10 [raced] [''my_lock'' \<mapsto> ''100.0'']) = None
   \<and> get ''my_lock'' (final (acquire_loop whole my_lock 10 [raced] [''my_lock'' \<mapsto> ''100.0'']))
       = Some ''261.0''"
  using acquire_lost_takeover_overwrites [where budget = 10 and cand = "''261.0''"
      and c = whole and r = raced and l = my_lock and s = "[''my_lock'' \<mapsto> ''100.0'']"
      and ?s1.0 = "[''my_lock'' \<mapsto> ''100.0'']" and ?s2.0 = "[''my_lock'' \<mapsto> ''100.0'']"
      and ?s3.0 = "[''my_lock'' \<mapsto> ''262.0'']" and v = "''100.0''" and t = 100]
  by (simp add: my_lock_def raced_def setnx_def get_def getset_def whole_def
      whole_to_bytes_def whole_float_def digit_def digit_of_def)

text \<open>
  C10. \<^verbatim>\<open>acquire\<close> has a third way to end. On a pass where \<^verbatim>\<open>setnx\<close>
  fails and the value read is a non-empty string that \<^verbatim>\<open>float\<close> rejects, the
  call raises \<^verbatim>\<open>ValueError\<close> after \<^verbatim>\<open>get\<close>: it neither sleeps nor
  raises \<^verbatim>\<open>LockTimeout\<close>. When the key is absent, or holds what a lock wrote
  for some timestamp \<open>t'\<close> and that string reads back as a float, the pass does not
  raise.
\<close>

theorem acquire_float_error:
  "(0 \<le> budget
     \<and> \<not> fst (setnx (key l) (to_bytes c (now1 r + expires l + 1)) (env1 r s))
     \<and> get (key l) (env2 r (env1 r s)) = Some v \<and> v \<noteq> [] \<and> py_float c v = None
    \<longrightarrow> acquire_loop c l budget (r # rs) s =
          \<lparr>outcome = Some (Raised ValueError), final = env2 r (env1 r s),
           calls = [Setnx False, Get (Some v)]\<rparr>)
   \<and> ((get (key l) (env2 r' (env1 r' s')) = None
        \<or> get (key l) (env2 r' (env1 r' s')) = Some (to_bytes c t'))
       \<and> py_float c (to_bytes c t') \<noteq> None
    \<longrightarrow> fst (attempt c l r' s') \<noteq> Raise ValueError)"
proof (intro conjI impI)
  assume a: "0 \<le> budget
     \<and> \<not> fst (setnx (key l) (to_bytes c (now1 r + expires l + 1)) (env1 r s))
     \<and> get (key l) (env2 r (env1 r s)) = Some v \<and> v \<noteq> [] \<and> py_float c v = None"
  then have present: "env1 r s (key l) \<noteq> None"
    by (auto simp add: setnx_def split: if_splits)
  from a have "attempt c l r s = (Raise ValueError, env2 r (env1 r s), [Setnx False, Get (Some v)])"
    by (simp add: attempt_present [OF present] get_def Let_def)
  with a show "acquire_loop c l budget (r # rs) s =
          \<lparr>outcome = Some (Raised ValueError), final = env2 r (env1 r s),
           calls = [Setnx False, Get (Some v)]\<rparr>"
    by simp
next
  assume b: "(get (key l) (env2 r' (env1 r' s')) = None
        \<or> get (key l) (env2 r' (env1 r' s')) = Some (to_bytes c t'))
       \<and> py_float c (to_bytes c t') \<noteq> None"
  show "fst (attempt c l r' s') \<noteq> Raise ValueError"
  proof (cases "env1 r' s' (key l) = None")
    case True
    then show ?thesis by (simp add: attempt_absent)
  next
    case False
    with b show ?thesis
      by (auto simp add: attempt_present [OF False] get_def Let_def split: option.splits)
  qed
qed

theorem acquire_float_error_witness:
  "((0::real) \<le> 10
     \<and> \<not> fst (setnx ''my_lock'' ''161.0'' [''my_lock'' \<mapsto> ''busy''])
     \<and> get ''my_lock'' [''my_lock'' \<mapsto> ''busy''] = Some ''busy'' \<and> ''busy'' \<noteq> []
     \<and> py_float whole ''busy'' = None
     \<and> acquire_loop whole my_lock 10 [quiet 100] [''my_lock'' \<mapsto> ''busy''] =
          \<lparr>outcome = Some (Raised ValueError), final = [''my_lock'' \<mapsto> ''busy''],
           calls = [Setnx False, Get (Some ''busy'')]\<rparr>)
   \<and> (get ''my_lock'' [''my_lock'' \<mapsto> ''160.0''] = Some (to_bytes whole 160)
     \<and> py_float whole (to_bytes whole 160) \<noteq> None
     \<and> fst (attempt whole my_lock (quiet 100) [''my_lock'' \<mapsto> ''160.0'']) \<noteq> Raise ValueError)"
  using acquire_float_error [where budget = 10 and l = my_lock and c = whole
      and r = "quiet 100" and s = "[''my_lock'' \<mapsto> ''busy'']" and v = "''busy''"
      and rs = "[]" and r' = "quiet 100" and s' = "[''my_lock'' \<mapsto> ''160.0'']" and t' = 160]
  by (simp add: my_lock_def quiet_def setnx_def get_def whole_def
      whole_to_bytes_def whole_float_def digit_def digit_of_def)

section \<open>The loop while the lock is held\<close>

lemma attempt_held:
  assumes "held c l r s"
  shows "attempt c l r s =
    (Continue, env2 r (env1 r s), [Setnx False, Get (get (key l) (env2 r (env1 r s)))])"
proof -
  from assms have present: "env1 r s (key l) \<noteq> None"
    by (auto simp add: held_def unexpired_def get_def split: option.splits)
  from assms show ?thesis
    by (auto simp add: attempt_present [OF present] held_def unexpired_def get_def Let_def
        split: option.splits)
qed

lemma acquire_loop_held:
  assumes "held_throughout c l rs s"
  shows "outcome (acquire_loop c l budget rs s) \<noteq> Some Acquired
    \<and> list_all waiting (calls (acquire_loop c l budget rs s))
    \<and> (0 \<le> check_interval l \<longrightarrow>
         outcome (acquire_loop c l budget rs s) = None
         \<or> outcome (acquire_loop c l budget rs s) = Some (Raised LockTimeout))"
  using assms
proof (induction rs arbitrary: budget s)
  case Nil
  show ?case by simp
next
  case (Cons r rs)
  from Cons.prems have h: "held c l r s" and rest: "held_throughout c l rs (env2 r (env1 r s))"
    by simp_all
  note IH = Cons.IH [OF rest, of "budget - check_interval l"]
  show ?case
  proof (cases "0 \<le> budget")
    case False
    then show ?thesis by simp
  next
    case True
    show ?thesis
    proof (cases "check_interval l < 0")
      case True
      with \<open>0 \<le> budget\<close> show ?thesis by (simp add: attempt_held [OF h])
    next
      case False
      with \<open>0 \<le> budget\<close> IH show ?thesis by (simp add: attempt_held [OF h] Let_def)
    qed
  qed
qed

text \<open>
  C1. While the key holds an unexpired claim at every check, \<^verbatim>\<open>acquire\<close> never
  returns: every call it makes is a failed \<^verbatim>\<open>setnx\<close>, a \<^verbatim>\<open>get\<close> or a
  sleep (no \<^verbatim>\<open>setnx\<close> succeeds and no \<^verbatim>\<open>getset\<close> is made), and the
  run is either still polling when the rounds end or has raised
  \<^verbatim>\<open>LockTimeout\<close>. The last part is for a polling period that
  \<^verbatim>\<open>time.sleep\<close> accepts.
\<close>

theorem acquire_held_never_succeeds:
  assumes "held_throughout c l rs s"
  shows "outcome (acquire c l rs s) \<noteq> Some Acquired
    \<and> list_all waiting (calls (acquire c l rs s))
    \<and> (0 \<le> check_interval l \<longrightarrow>
         outcome (acquire c l rs s) = None
         \<or> outcome (acquire c l rs s) = Some (Raised LockTimeout))"
  unfolding acquire_def using assms by (rule acquire_loop_held)

text \<open>
  The witness: the default lock with \<^verbatim>\<open>timeout = 1\<close>, the key held by a
  claim that expires at 160, and three passes at times 100, 101 and 102. The third is
  not made: the budget is below zero after the second.
\<close>

theorem acquire_held_never_succeeds_witness:
  "held_throughout whole (my_lock\<lparr>timeout := 1\<rparr>) [quiet 100, quiet 101, quiet 102]
     [''my_lock'' \<mapsto> ''160.0'']
   \<and> (0::real) \<le> check_interval (my_lock\<lparr>timeout := 1\<rparr>)
   \<and> outcome (acquire whole (my_lock\<lparr>timeout := 1\<rparr>) [quiet 100, quiet 101, quiet 102]
        [''my_lock'' \<mapsto> ''160.0'']) = Some (Raised LockTimeout)
   \<and> list_all waiting (calls (acquire whole (my_lock\<lparr>timeout := 1\<rparr>)
        [quiet 100, quiet 101, quiet 102] [''my_lock'' \<mapsto> ''160.0'']))"
proof -
  have h: "held_throughout whole (my_lock\<lparr>timeout := 1\<rparr>) [quiet 100, quiet 101, quiet 102]
     [''my_lock'' \<mapsto> ''160.0'']"
    by (simp add: held_def unexpired_def my_lock_def quiet_def get_def whole_def
        whole_float_def digit_of_def)
  have o: "outcome (acquire whole (my_lock\<lparr>timeout := 1\<rparr>) [quiet 100, quiet 101, quiet 102]
        [''my_lock'' \<mapsto> ''160.0'']) = Some (Raised LockTimeout)"
    by (simp add: acquire_def attempt_held [OF h [simplified, THEN conjunct1]]
        attempt_def setnx_def get_def my_lock_def quiet_def whole_def whole_float_def
        digit_of_def)
  from h o acquire_held_never_succeeds [OF h] show ?thesis
    by (simp add: my_lock_def)
qed

subsection \<open>How often a blocked caller polls\<close>

lemma floor_budget_step:
  fixes b d :: real
  assumes "0 < d" and "d \<le> b"
  shows "nat \<lfloor>(b - d) / d\<rfloor> + 1 = nat \<lfloor>b / d\<rfloor>"
proof -
  from assms have "(b - d) / d = b / d - 1"
    by (simp add: diff_divide_distrib)
  then have f: "\<lfloor>(b - d) / d\<rfloor> = \<lfloor>b / d\<rfloor> - 1"
    by simp
  from assms have "1 \<le> b / d"
    by (simp add: le_divide_eq)
  then have "1 \<le> \<lfloor>b / d\<rfloor>"
    by (simp add: le_floor_iff)
  with f show ?thesis by arith
qed

lemma floor_budget_last:
  fixes b d :: real
  assumes "0 \<le> b" and "b < d"
  shows "nat \<lfloor>b / d\<rfloor> = 0"
proof -
  from assms have "b / d < 1"
    by (simp add: divide_less_eq)
  then have "\<lfloor>b / d\<rfloor> < 1"
    by (simp add: floor_less_iff)
  then show ?thesis by simp
qed

lemma acquire_loop_held_polls:
  assumes "held_throughout c l rs s" and "0 < check_interval l" and "0 \<le> budget"
    and "nat \<lfloor>budget / check_interval l\<rfloor> < length rs"
  shows "outcome (acquire_loop c l budget rs s) = Some (Raised LockTimeout)
    \<and> length (filter is_setnx (calls (acquire_loop c l budget rs s)))
        = nat \<lfloor>budget / check_interval l\<rfloor> + 1"
  using assms
proof (induction rs arbitrary: budget s)
  case Nil
  then show ?case by simp
next
  case (Cons r rs)
  from Cons.prems have h: "held c l r s" and rest: "held_throughout c l rs (env2 r (env1 r s))"
    by simp_all
  let ?d = "check_interval l"
  have pass: "acquire_loop c l budget (r # rs) s =
      (let rest = acquire_loop c l (budget - ?d) rs (env2 r (env1 r s))
       in rest\<lparr>calls := [Setnx False, Get (get (key l) (env2 r (env1 r s)))] @ Sleep ?d # calls rest\<rparr>)"
    using Cons.prems(2,3) by (simp add: attempt_held [OF h])
  show ?case
  proof (cases "?d \<le> budget")
    case True
    with Cons.prems(2) have step: "nat \<lfloor>(budget - ?d) / ?d\<rfloor> + 1 = nat \<lfloor>budget / ?d\<rfloor>"
      by (rule floor_budget_step)
    with Cons.prems(4) have "nat \<lfloor>(budget - ?d) / ?d\<rfloor> < length rs"
      by simp
    with True have "outcome (acquire_loop c l (budget - ?d) rs (env2 r (env1 r s)))
        = Some (Raised LockTimeout)
      \<and> length (filter is_setnx (calls (acquire_loop c l (budget - ?d) rs (env2 r (env1 r s)))))
        = nat \<lfloor>(budget - ?d) / ?d\<rfloor> + 1"
      using Cons.IH [OF rest Cons.prems(2), of "budget - ?d"] by simp
    with step show ?thesis unfolding pass Let_def by simp
  next
    case False
    with Cons.prems(3) have "nat \<lfloor>budget / ?d\<rfloor> = 0"
      by (simp add: floor_budget_last)
    moreover from False have "acquire_loop c l (budget - ?d) rs (env2 r (env1 r s)) =
        \<lparr>outcome = Some (Raised LockTimeout), final = env2 r (env1 r s), calls = []\<rparr>"
      by (cases rs) simp_all
    ultimately show ?thesis unfolding pass Let_def by simp
  qed
qed

lemma acquire_loop_held_rhythm:
  assumes "held_throughout c l rs s" and "0 < check_interval l" and "0 \<le> budget"
    and "nat \<lfloor>budget / check_interval l\<rfloor> < length rs"
  shows "filter (\<lambda>e. is_setnx e \<or> is_sleep e) (calls (acquire_loop c l budget rs s))
    = concat (replicate (nat \<lfloor>budget / check_interval l\<rfloor> + 1)
        [Setnx False, Sleep (check_interval l)])"
  using assms
proof (induction rs arbitrary: budget s)
  case Nil
  then show ?case by simp
next
  case (Cons r rs)
  from Cons.prems have h: "held c l r s" and rest: "held_throughout c l rs (env2 r (env1 r s))"
    by simp_all
  let ?d = "check_interval l"
  have pass: "acquire_loop c l budget (r # rs) s =
      (let rest = acquire_loop c l (budget - ?d) rs (env2 r (env1 r s))
       in rest\<lparr>calls := [Setnx False, Get (get (key l) (env2 r (env1 r s)))] @ Sleep ?d # calls rest\<rparr>)"
    using Cons.prems(2,3) by (simp add: attempt_held [OF h])
  show ?case
  proof (cases "?d \<le> budget")
    case True
    with Cons.prems(2) have step: "nat \<lfloor>(budget - ?d) / ?d\<rfloor> + 1 = nat \<lfloor>budget / ?d\<rfloor>"
      by (rule floor_budget_step)
    with Cons.prems(4) have "nat \<lfloor>(budget - ?d) / ?d\<rfloor> < length rs"
      by simp
    with True have "filter (\<lambda>e. is_setnx e \<or> is_sleep e)
        (calls (acquire_loop c l (budget - ?d) rs (env2 r (env1 r s))))
      = concat (replicate (nat \<lfloor>(budget - ?d) / ?d\<rfloor> + 1) [Setnx False, Sleep ?d])"
      using Cons.IH [OF rest Cons.prems(2), of "budget - ?d"] by simp
    then show ?thesis unfolding pass Let_def step [symmetric] by simp
  next
    case False
    with Cons.prems(3) have "nat \<lfloor>budget / ?d\<rfloor> = 0"
      by (simp add: floor_budget_last)
    moreover from False have "acquire_loop c l (budget - ?d) rs (env2 r (env1 r s)) =
        \<lparr>outcome = Some (Raised LockTimeout), final = env2 r (env1 r s), calls = []\<rparr>"
      by (cases rs) simp_all
    ultimately show ?thesis unfolding pass Let_def by simp
  qed
qed

lemma take_alternation:
  "take (2 * n + 1) (concat (replicate (n + 1) [Setnx False, Sleep d])) = alternation n d"
  by (induction n) simp_all

text \<open>
  C5, as the code has it. The budget and the polling period are integers, as the
  defaults are and as Python subtracts without rounding: \<open>timeout = T \<ge> 0\<close> and
  \<open>check_interval = d > 0\<close>. A caller blocked at every check then raises
  \<^verbatim>\<open>LockTimeout\<close> after \<open>T div d + 1\<close> passes, one at each budget \<open>T\<close>,
  \<open>T - d\<close>, ... that is not below zero. The first pass is made at once, and one sleep
  of \<open>d\<close> lies between each pass and the next: the \<^verbatim>\<open>setnx\<close> calls and the
  sleeps of the run begin with that alternation, which holds all its passes. The rounds
  given must be enough for these passes.
\<close>

theorem acquire_held_polls:
  assumes "held_throughout c l rs s"
    and "timeout l = of_int T" and "check_interval l = of_int d"
    and "0 \<le> T" and "0 < d"
    and "nat (T div d) < length rs"
  shows "outcome (acquire c l rs s) = Some (Raised LockTimeout)
    \<and> polls (acquire c l rs s) = nat (T div d) + 1
    \<and> take (2 * nat (T div d) + 1) (rhythm (acquire c l rs s))
        = alternation (nat (T div d)) (check_interval l)"
proof -
  from assms(2,3) have fl: "\<lfloor>timeout l / check_interval l\<rfloor> = T div d"
    by (simp add: floor_divide_of_int_eq)
  from assms(3,5) have pos: "0 < check_interval l"
    by simp
  from assms(2,4) have nonneg: "0 \<le> timeout l"
    by simp
  from assms(6) fl have enough: "nat \<lfloor>timeout l / check_interval l\<rfloor> < length rs"
    by simp
  from acquire_loop_held_polls [OF assms(1) pos nonneg enough] fl
  have count: "outcome (acquire c l rs s) = Some (Raised LockTimeout)
      \<and> polls (acquire c l rs s) = nat (T div d) + 1"
    by (simp add: acquire_def polls_def)
  from acquire_loop_held_rhythm [OF assms(1) pos nonneg enough] fl
  have "rhythm (acquire c l rs s)
      = concat (replicate (nat (T div d) + 1) [Setnx False, Sleep (check_interval l)])"
    by (simp add: acquire_def rhythm_def)
  then have "take (2 * nat (T div d) + 1) (rhythm (acquire c l rs s))
      = alternation (nat (T div d)) (check_interval l)"
    by (simp only: take_alternation)
  with count show ?thesis by simp
qed

lemma seconds_held: "held_throughout whole my_lock seconds held_elsewhere"
  by (simp add: seconds_def held_elsewhere_def held_def unexpired_def my_lock_def quiet_def
      get_def whole_def whole_float_def digit_of_def)

lemma seconds_polls:
  "outcome (acquire whole my_lock seconds held_elsewhere) = Some (Raised LockTimeout)
   \<and> polls (acquire whole my_lock seconds held_elsewhere) = 11"
proof -
  have "nat \<lfloor>(10::real) / 1\<rfloor> < length seconds"
    by (simp add: seconds_def)
  then have "outcome (acquire_loop whole my_lock 10 seconds held_elsewhere)
      = Some (Raised LockTimeout)
    \<and> length (filter is_setnx (calls (acquire_loop whole my_lock 10 seconds held_elsewhere)))
      = nat \<lfloor>(10::real) / check_interval my_lock\<rfloor> + 1"
    by (intro acquire_loop_held_polls seconds_held) (simp_all add: my_lock_def)
  then show ?thesis
    by (simp add: acquire_def polls_def my_lock_def)
qed

theorem acquire_held_polls_witness:
  "held_throughout whole my_lock seconds held_elsewhere
   \<and> timeout my_lock = of_int 10 \<and> check_interval my_lock = of_int 1
   \<and> (0::int) \<le> 10 \<and> (0::int) < 1
   \<and> nat (10 div 1) < length seconds
   \<and> outcome (acquire whole my_lock seconds held_elsewhere) = Some (Raised LockTimeout)
   \<and> polls (acquire whole my_lock seconds held_elsewhere) = 11
   \<and> take 21 (rhythm (acquire whole my_lock seconds held_elsewhere)) = alternation 10 1"
proof -
  have t: "timeout my_lock = of_int 10" and d: "check_interval my_lock = of_int 1"
    and n: "nat (10 div 1) < length seconds"
    by (simp_all add: my_lock_def seconds_def)
  from acquire_held_polls [OF seconds_held t d _ _ n] seconds_held t d n show ?thesis
    by simp
qed

text \<open>
  The claim as it was stated gives \<open>timeout / check_interval = 10\<close> passes for the
  scenario; the run makes eleven.
\<close>

theorem acquire_held_polls_counterexample:
  "outcome (acquire whole my_lock seconds held_elsewhere) = Some (Raised LockTimeout)
   \<and> real (polls (acquire whole my_lock seconds held_elsewhere))
       \<noteq> timeout my_lock / check_interval my_lock"
  using seconds_polls by (simp add: my_lock_def)

text \<open>
  C4. The run with \<^verbatim>\<open>timeout = 0\<close> against a held key, evaluated: one pass,
  then \<^verbatim>\<open>time.sleep(1)\<close>, and only then \<^verbatim>\<open>LockTimeout\<close>. The docstring
  of the constructor says that a value of 0 means we never wait.
\<close>

theorem acquire_timeout_zero_sleeps:
  "acquire whole (my_lock\<lparr>timeout := 0\<rparr>) [quiet 100] held_elsewhere =
     \<lparr>outcome = Some (Raised LockTimeout), final = held_elsewhere,
      calls = [Setnx False, Get (Some ''160.0''), Sleep 1]\<rparr>"
  by (simp add: acquire_def attempt_def setnx_def get_def my_lock_def quiet_def
      held_elsewhere_def whole_def whole_float_def digit_of_def)

section \<open>Leaving the scope of the lock\<close>

text \<open>
  C7. When \<^verbatim>\<open>acquire\<close> succeeded, the block ends with the store that
  \<^verbatim>\<open>release\<close> makes of the store the body left, whether the body returned or
  raised; the key is absent in it; and an exception of the body is passed on.
\<close>

theorem with_lock_releases:
  assumes "outcome (acquire c l rs s) = Some Acquired"
    and "body (final (acquire c l rs s)) = (res, s1)"
  shows "with_lock c l rs body s =
        (case res of Inl exc \<Rightarrow> Propagated exc | Inr v \<Rightarrow> Normal v, release l s1)
    \<and> get (key l) (snd (with_lock c l rs body s)) = None"
  using assms
  by (simp add: with_lock_def lock_enter_def lock_exit_def release_def delete_def get_def
      split: sum.splits)

theorem with_lock_releases_witness:
  "outcome (acquire whole my_lock [quiet 100] Map.empty) = Some Acquired
   \<and> with_lock whole my_lock [quiet 100] (\<lambda>s. (Inl ''boom'' :: string + unit, s)) Map.empty
       = (Propagated ''boom'', Map.empty)
   \<and> with_lock whole my_lock [quiet 100] (\<lambda>s. (Inr () :: string + unit, s)) Map.empty
       = (Normal (), Map.empty)"
proof -
  have a: "acquire whole my_lock [quiet 100] Map.empty =
      \<lparr>outcome = Some Acquired, final = [''my_lock'' \<mapsto> ''161.0''], calls = [Setnx True]\<rparr>"
    by (simp add: acquire_def attempt_def setnx_def my_lock_def quiet_def whole_def
        whole_to_bytes_def digit_def)
  then have o: "outcome (acquire whole my_lock [quiet 100] Map.empty) = Some Acquired"
    by simp
  have r: "release my_lock [''my_lock'' \<mapsto> ''161.0''] = Map.empty"
    by (simp add: release_def delete_def my_lock_def)
  from with_lock_releases [OF o, of "\<lambda>s. (Inl ''boom'' :: string + unit, s)"]
    with_lock_releases [OF o, of "\<lambda>s. (Inr () :: string + unit, s)"] o
  show ?thesis by (simp add: a r)
qed

section \<open>The quota of the guard\<close>

lemma with_pass_below:
  assumes "\<not> in_context g" and "get_usage g s < max_requests g"
  shows "\<exists>g' s'. with_pass g s = (Some (Inr ()), g', s')
    \<and> get_usage g s' = get_usage g s + 1
    \<and> \<not> in_context g' \<and> resource g' = resource g \<and> client g' = client g
    \<and> max_requests g' = max_requests g"
  using assms
  by (auto simp add: with_pass_def enter_def check.simps [of g] leave_def get_usage_def
      increment_def expire_key_def split: option.splits)

lemma make_requests_below:
  assumes "\<not> in_context g" and "get_usage g s + n \<le> max_requests g"
  shows "\<exists>g' s'. make_requests n g s = (Some (Inr ()), g', s')
    \<and> get_usage g s' = get_usage g s + n
    \<and> \<not> in_context g' \<and> resource g' = resource g \<and> client g' = client g
    \<and> max_requests g' = max_requests g"
  using assms
proof (induction n arbitrary: g s)
  case 0
  then show ?case by simp
next
  case (Suc n)
  from Suc.prems have "get_usage g s < max_requests g" by simp
  with Suc.prems(1) obtain g1 s1 where one: "with_pass g s = (Some (Inr ()), g1, s1)"
    and u1: "get_usage g s1 = get_usage g s + 1"
    and g1: "\<not> in_context g1" "resource g1 = resource g" "client g1 = client g"
      "max_requests g1 = max_requests g"
    using with_pass_below by blast
  from g1 have same: "get_usage g1 = get_usage g"
    by (simp add: get_usage_def fun_eq_iff)
  from Suc.prems(2) u1 g1 same have "get_usage g1 s1 + n \<le> max_requests g1"
    by simp
  with g1(1) obtain g' s' where rest: "make_requests n g1 s1 = (Some (Inr ()), g', s')"
    and u': "get_usage g1 s' = get_usage g1 s1 + n"
    and g': "\<not> in_context g'" "resource g' = resource g1" "client g' = client g1"
      "max_requests g' = max_requests g1"
    using Suc.IH by blast
  from one rest have "make_requests (Suc n) g s = (Some (Inr ()), g', s')"
    by simp
  with u' u1 g' g1 same show ?case by simp
qed

text \<open>
  C3. From a fresh window, \<open>max_requests\<close> blocks in a row all enter; the usage is
  then exactly \<open>max_requests\<close>; and the next entry of the guard, not blocking, raises
  \<^verbatim>\<open>TooManyRequests\<close> and leaves guard, store and usage as they were.
\<close>

theorem quota_reached:
  assumes "\<not> in_context g" and "get_usage g s = 0"
  shows "case make_requests (max_requests g) g s of
      (res, g', s') \<Rightarrow>
        res = Some (Inr ())
        \<and> get_usage g' s' = max_requests g
        \<and> enter (g'\<lparr>blocking := False\<rparr>) ws s'
            = (Some (Inl TooManyRequests), g'\<lparr>blocking := False\<rparr>, s')
        \<and> get_usage g' (snd (snd (enter (g'\<lparr>blocking := False\<rparr>) ws s'))) = max_requests g"
proof -
  from assms have "get_usage g s + max_requests g \<le> max_requests g"
    by simp
  with assms(1) obtain g' s' where run: "make_requests (max_requests g) g s = (Some (Inr ()), g', s')"
    and u: "get_usage g s' = get_usage g s + max_requests g"
    and g': "\<not> in_context g'" "resource g' = resource g" "client g' = client g"
      "max_requests g' = max_requests g"
    using make_requests_below by blast
  from g' have same: "get_usage g' = get_usage g"
    by (simp add: get_usage_def fun_eq_iff)
  from u assms(2) same have full: "get_usage g' s' = max_requests g"
    by simp
  have same': "get_usage (g'\<lparr>blocking := False\<rparr>) = get_usage g'"
    by (simp add: get_usage_def fun_eq_iff)
  from full g' have "enter (g'\<lparr>blocking := False\<rparr>) ws s'
      = (Some (Inl TooManyRequests), g'\<lparr>blocking := False\<rparr>, s')"
    by (simp add: enter_def check.simps [of "g'\<lparr>blocking := False\<rparr>"] same')
  with run full show ?thesis by simp
qed

theorem quota_reached_witness:
  "\<not> in_context test_guard \<and> get_usage test_guard Map.empty = 0
   \<and> (case make_requests 10 test_guard Map.empty of
        (res, g', s') \<Rightarrow>
          res = Some (Inr ())
          \<and> get_usage g' s' = 10
          \<and> enter (g'\<lparr>blocking := False\<rparr>) [] s'
              = (Some (Inl TooManyRequests), g'\<lparr>blocking := False\<rparr>, s')
          \<and> get_usage g' (snd (snd (enter (g'\<lparr>blocking := False\<rparr>) [] s'))) = 10)"
proof -
  have a: "\<not> in_context test_guard" and b: "get_usage test_guard Map.empty = 0"
    and m: "max_requests test_guard = 10"
    by (simp_all add: test_guard_def get_usage_def)
  from quota_reached [OF a b, of "[]"] a b show ?thesis
    by (simp add: m)
qed

text \<open>
  C8. An entry of a guard that is already inside its scope fails with
  \<^verbatim>\<open>GaveUp\<close> whatever the store holds, and returns the guard and the store as
  they were: the usage is the same before and after.
\<close>

theorem nested_entry_gives_up:
  assumes "in_context g"
  shows "enter g ws s = (Some (Inl GaveUp), g, s)
    \<and> fst (enter g ws s') = fst (enter g ws s)
    \<and> get_usage g (snd (snd (enter g ws s))) = get_usage g s"
  using assms by (simp add: enter_def)

text \<open>
  The witness is the nested block of \<^verbatim>\<open>test_nested_not_allowed\<close>: the outer
  entry succeeds and sets \<open>in_context\<close>, the inner entry gives up.
\<close>

theorem nested_entry_gives_up_witness:
  "(case enter test_guard [] Map.empty of
      (res, g1, s1) \<Rightarrow>
        res = Some (Inr ()) \<and> in_context g1 \<and> get_usage g1 s1 = 1
        \<and> enter g1 [] s1 = (Some (Inl GaveUp), g1, s1)
        \<and> get_usage g1 (snd (snd (enter g1 [] s1))) = 1)"
proof -
  let ?g1 = "test_guard\<lparr>in_context := True, acquire_attempt := 0, post_enter_callbacks := {}\<rparr>"
  let ?s1 = "[(''test'', ''localhost'') \<mapsto> \<lparr>hits = 1, ttl = Some 1\<rparr>]"
  have outer: "enter test_guard [] Map.empty = (Some (Inr ()), ?g1, ?s1)"
    unfolding enter_def check.simps [of test_guard]
    by (simp add: test_guard_def get_usage_def increment_def expire_key_def)
  have inside: "in_context ?g1"
    by simp
  have u: "get_usage ?g1 ?s1 = 1"
    by (simp add: test_guard_def get_usage_def)
  from nested_entry_gives_up [OF inside, of "[]" ?s1 ?s1] inside u show ?thesis
    unfolding outer by simp
qed

end
